theory Spec2Isabelle
  imports Main "HOL-Library.Word"
begin

section \<open>Data model of \<open>counterfit/core/targets.py\<close>\<close>

text \<open>
  A sample reaches the target as a numpy array. What the code reads of it is its raw
  buffer (\<open>np.array(array).data.tobytes()\<close>); element type and shape are kept beside the
  buffer, because two arrays may differ in them and still own the same bytes.
\<close>

type_synonym byte = "8 word"

record ndarray =
  dtype :: string
  shape :: "nat list"
  buf :: "byte list"

text \<open>Exceptions that the modelled code raises or lets through.\<close>

datatype exn =
    NotImplementedError
  | IndexError
  | KeyError
  | TypeError
  | ShapeMismatch
  | ModelError string
  | AttackError string

text \<open>
  Modelled from the spec: \<open>enums.AttackStatus\<close> is imported from a module that is not
  part of the source file; the spec's data model gives the members
  \<open>pending\<close>, \<open>running\<close>, \<open>completed\<close>.
\<close>

datatype AttackStatus = pending | running | completed

text \<open>Python values that occur as a \<open>status\<close> argument or as an attack parameter.\<close>

datatype pyval =
    PNone
  | PBool bool
  | PInt int
  | PStr string
  | PStatus AttackStatus

text \<open>Python's truth value of an object, as \<open>if not status\<close> and \<open>if d.get(..)\<close> test it.\<close>

fun truthy :: "pyval \<Rightarrow> bool" where
  "truthy PNone = False"
| "truthy (PBool b) = b"
| "truthy (PInt i) = (i \<noteq> 0)"
| "truthy (PStr s) = (s \<noteq> [])"
| "truthy (PStatus s) = True"

text \<open>\<open>Query = namedtuple('Query', ['input', 'output', 'label'])\<close>; \<open>output\<close> is a keyword
  of the prover, so the fields carry a prefix.\<close>

record ('o, 'l) Query =
  q_input :: "ndarray list"
  q_output :: "'o list"
  q_label :: "'l list"

text \<open>
  The \<open>results\<close> dictionary of an attack; a key that is absent is \<open>None\<close>.
  The elapsed time is a reading of the wall clock and is carried as an abstract number.
\<close>

record ('o, 'l) results =
  initial :: "('o, 'l) Query option"
  final :: "('o, 'l) Query option"
  elapsed_time :: "int option"
  queries :: "int option"
  cache_hits :: "int option"

record ('o, 'l) log_entry =
  le_model_id :: string
  le_attack_name :: string
  le_attack_id :: string
  le_input :: ndarray
  le_output :: 'o
  le_label :: 'l

text \<open>
  The target class of an attack is used as a numpy index: a single integer selects one
  vocabulary entry, a list of integers selects one entry per position.
\<close>

datatype target_class = TScalar int | TVector "int list"

text \<open>
  The attack object (\<open>self.active_attack\<close>): only its attributes that the target reads
  or writes.
\<close>

record ('o, 'l) attack =
  attack_name :: string
  attack_id :: string
  sample_index :: nat
  samples :: "ndarray list"
  parameters :: "(string \<times> pyval) list"
  target_class :: target_class
  status :: AttackStatus
  results :: "('o, 'l) results"
  logs :: "('o, 'l) log_entry list"

text \<open>
  The target. \<open>model_state\<close> is whatever the model behind \<open>__call__\<close> keeps between
  calls, and \<open>calls\<close> is the trace of the batches handed to \<open>__call__\<close>, oldest first.
  The dictionaries \<open>cache\<close> and \<open>attacks\<close> are a map and an association list.
\<close>

record ('o, 'l, 'm) target =
  model_name :: string
  model_output_classes :: "'l list"
  active_attack :: "('o, 'l) attack"
  attacks :: "(string \<times> ('o, 'l) attack) list"
  num_evaluations :: int
  actual_evaluations :: int
  cache :: "byte list \<rightharpoonup> 'o"
  model_state :: 'm
  calls :: "ndarray list list"

text \<open>
  The model behind \<open>__call__\<close>: given its own state and a batch it returns the raw
  outputs (or raises) and its next state. Nothing is assumed about the number of outputs.
\<close>

type_synonym ('o, 'm) model = "'m \<Rightarrow> ndarray list \<Rightarrow> (exn + 'o list) \<times> 'm"

section \<open>Query execution\<close>

text \<open>\<open>_key\<close>: the raw bytes of the array.\<close>

definition key :: "ndarray \<Rightarrow> byte list" where
  "key array = buf array"

text \<open>\<open>self.__call__(batch)\<close>, recorded in the trace.\<close>

definition invoke ::
  "('o, 'm) model \<Rightarrow> ndarray list \<Rightarrow> ('o, 'l, 'm) target \<Rightarrow> (exn + 'o list) \<times> ('o, 'l, 'm) target" where
  "invoke call batch t =
     (case call (model_state t) batch of
        (r, m') \<Rightarrow> (r, t\<lparr>model_state := m', calls := calls t @ [batch]\<rparr>))"

text \<open>
  First loop of \<open>_submit_with_cache\<close>: \<open>for i, array in enumerate(batch_input)\<close>, with the
  three lists \<open>submit_batch\<close>, \<open>index\<close>, \<open>output\<close> it appends to. The placeholder
  \<open>None\<close> of a miss is \<open>None\<close>, a cached value \<open>v\<close> is \<open>Some v\<close>.
\<close>

fun scan_batch ::
  "(byte list \<rightharpoonup> 'o) \<Rightarrow> nat \<Rightarrow> ndarray list \<Rightarrow>
   ndarray list \<times> nat list \<times> 'o option list \<Rightarrow> ndarray list \<times> nat list \<times> 'o option list" where
  "scan_batch c i [] acc = acc"
| "scan_batch c i (array # rest) (submit_batch, index, out) =
     (case c (key array) of
        Some v \<Rightarrow> scan_batch c (Suc i) rest (submit_batch, index, out @ [Some v])
      | None \<Rightarrow> scan_batch c (Suc i) rest (submit_batch @ [array], index @ [i], out @ [None]))"

text \<open>
  Second loop: \<open>for i, inp, outp in zip(index, submit_batch, results)\<close>, writing the cache
  and the output position.
\<close>

fun merge_results ::
  "(nat \<times> ndarray \<times> 'o) list \<Rightarrow> (byte list \<rightharpoonup> 'o) \<times> 'o option list \<Rightarrow>
   (byte list \<rightharpoonup> 'o) \<times> 'o option list" where
  "merge_results [] st = st"
| "merge_results ((i, inp, outp) # zs) (c, out) =
     merge_results zs (c(key inp \<mapsto> outp), out[i := Some outp])"

definition submit_with_cache ::
  "('o, 'm) model \<Rightarrow> ndarray list \<Rightarrow> ('o, 'l, 'm) target \<Rightarrow>
   (exn + 'o option list) \<times> ('o, 'l, 'm) target" where
  "submit_with_cache call batch_input t =
     (let t1 = t\<lparr>num_evaluations := num_evaluations t + int (length batch_input)\<rparr> in
      case scan_batch (cache t1) 0 batch_input ([], [], []) of
        (submit_batch, index, out) \<Rightarrow>
          if length submit_batch > 0 then
            (let t2 = t1\<lparr>actual_evaluations := actual_evaluations t1 + int (length submit_batch)\<rparr> in
             case invoke call submit_batch t2 of
               (Inl e, t3) \<Rightarrow> (Inl e, t3)
             | (Inr rs, t3) \<Rightarrow>
                 (case merge_results (zip index (zip submit_batch rs)) (cache t3, out) of
                    (c, out') \<Rightarrow> (Inr out', t3\<lparr>cache := c\<rparr>)))
          else (Inr out, t1))"

text \<open>
  \<open>_submit\<close>: no cache, both counters advance by the batch length. The conversion
  \<open>np.array(batch_input)\<close> keeps the samples and their order and is not written out
  (\<open>PETarget._submit\<close> hands the batch over as it is).
\<close>

definition submit ::
  "('o, 'm) model \<Rightarrow> ndarray list \<Rightarrow> ('o, 'l, 'm) target \<Rightarrow> (exn + 'o list) \<times> ('o, 'l, 'm) target" where
  "submit call batch_input t =
     invoke call batch_input
       (t\<lparr>num_evaluations := num_evaluations t + int (length batch_input),
          actual_evaluations := actual_evaluations t + int (length batch_input)\<rparr>)"

text \<open>
  \<open>outputs_to_labels\<close> is meant to be overridden (the default is an arg-max over
  floating-point rows), so the operations below take it as the parameter \<open>labeller\<close>.
\<close>

type_synonym ('o, 'l) labeller = "'o list \<Rightarrow> 'l list"

text \<open>
  \<open>_submit_with_logging\<close>: an uncached submission, then one log record for each triple of
  \<open>zip(batch_input, output, label)\<close>. The time stamp of a record is left out.
\<close>

definition submit_with_logging ::
  "('o, 'l) labeller \<Rightarrow> ('o, 'm) model \<Rightarrow> string \<Rightarrow> string \<Rightarrow> ndarray list \<Rightarrow>
   ('o, 'l, 'm) target \<Rightarrow> (exn + 'o list) \<times> ('o, 'l, 'm) target" where
  "submit_with_logging labeller call name ident batch_input t =
     (case submit call batch_input t of
        (Inl e, t1) \<Rightarrow> (Inl e, t1)
      | (Inr outp, t1) \<Rightarrow>
          (let entries =
                 map (\<lambda>(i, o', l). \<lparr>le_model_id = model_name t1, le_attack_name = name,
                                      le_attack_id = ident, le_input = i, le_output = o',
                                      le_label = l\<rparr>)
                     (zip batch_input (zip outp (labeller outp)))
           in (Inr outp,
               t1\<lparr>active_attack := (active_attack t1)\<lparr>logs := logs (active_attack t1) @ entries\<rparr>\<rparr>)))"

text \<open>\<open>_get_query\<close>: one uncached submission and its labels, as a \<open>Query\<close>.\<close>

definition get_query ::
  "('o, 'l) labeller \<Rightarrow> ('o, 'm) model \<Rightarrow> ndarray list \<Rightarrow> ('o, 'l, 'm) target \<Rightarrow>
   (exn + ('o, 'l) Query) \<times> ('o, 'l, 'm) target" where
  "get_query labeller call batch t =
     (case submit call batch t of
        (Inl e, t1) \<Rightarrow> (Inl e, t1)
      | (Inr outp, t1) \<Rightarrow>
          (Inr \<lparr>q_input = batch, q_output = outp, q_label = labeller outp\<rparr>, t1))"

section \<open>Attack lifecycle\<close>

text \<open>\<open>init_run_attack\<close>: the initial probe; \<open>results\<close> becomes a new dictionary.\<close>

definition init_run_attack ::
  "('o, 'l) labeller \<Rightarrow> ('o, 'm) model \<Rightarrow> ('o, 'l, 'm) target \<Rightarrow>
   (exn + unit) \<times> ('o, 'l, 'm) target" where
  "init_run_attack labeller call t =
     (case get_query labeller call (samples (active_attack t)) t of
        (Inl e, t1) \<Rightarrow> (Inl e, t1)
      | (Inr q, t1) \<Rightarrow>
          (Inr (),
           t1\<lparr>active_attack := (active_attack t1)\<lparr>results :=
                \<lparr>initial = Some q, final = None, elapsed_time = None, queries = None,
                 cache_hits = None\<rparr>\<rparr>\<rparr>))"

text \<open>
  The attack algorithm is foreign code that is handed a query function. All it can do is
  return its adversarial examples, raise, or submit a batch and go on with what came
  back (outputs or an exception); this is the tree of an attack's behaviours.
\<close>

datatype 'o attack_run =
    Return "ndarray list"
  | Raise exn
  | Ask "ndarray list" "exn + 'o list \<Rightarrow> 'o attack_run"

text \<open>Running an attack against a query function of the target.\<close>

primrec drive ::
  "(ndarray list \<Rightarrow> 's \<Rightarrow> (exn + 'o list) \<times> 's) \<Rightarrow> 'o attack_run \<Rightarrow> 's \<Rightarrow>
   (exn + ndarray list) \<times> 's" where
  "drive q (Return xs) = (\<lambda>t. (Inr xs, t))"
| "drive q (Raise e) = (\<lambda>t. (Inl e, t))"
| "drive q (Ask batch k) = (\<lambda>t. case q batch t of (r, t') \<Rightarrow> drive q (k r) t')"

text \<open>
  \<open>_as_blackbox_art_target\<close>: the query function given to the attack is
  \<open>func if logging else self._submit\<close>.
\<close>

definition as_blackbox_art_target ::
  "('o, 'l) labeller \<Rightarrow> ('o, 'm) model \<Rightarrow> bool \<Rightarrow> string \<Rightarrow> string \<Rightarrow> ndarray list \<Rightarrow>
   ('o, 'l, 'm) target \<Rightarrow> (exn + 'o list) \<times> ('o, 'l, 'm) target" where
  "as_blackbox_art_target labeller call logging name ident =
     (if logging then submit_with_logging labeller call name ident else submit call)"

text \<open>\<open>self.active_attack.parameters.get("targeted", False)\<close>, as a truth value.\<close>

definition targeted :: "('o, 'l) attack \<Rightarrow> bool" where
  "targeted a = (case map_of (parameters a) ''targeted'' of None \<Rightarrow> False | Some v \<Rightarrow> truthy v)"

text \<open>
  The attack class: from the parameters, the samples and (when targeted) the list
  \<open>[target_class] * len(samples)\<close> to the behaviour of \<open>generate\<close>.
\<close>

type_synonym 'o attack_cls =
  "(string \<times> pyval) list \<Rightarrow> ndarray list \<Rightarrow> target_class list option \<Rightarrow> 'o attack_run"

text \<open>\<open>Target._run_attack\<close> of the parent class.\<close>

definition Target_run_attack ::
  "bool \<Rightarrow> ('o, 'l, 'm) target \<Rightarrow> (exn + ndarray list) \<times> ('o, 'l, 'm) target" where
  "Target_run_attack logging t = (Inl NotImplementedError, t)"

text \<open>
  \<open>ArtTarget._run_art_attack\<close>; the status is set only after \<open>generate\<close> has returned.
  \<open>PETarget._run_attack\<close> has the same body, and \<open>TextTarget._run_textattack_attack\<close>
  the same shape: the query function chosen by \<open>logging\<close>, the foreign attack, then the
  status.
\<close>

definition run_art_attack ::
  "('o, 'l) labeller \<Rightarrow> ('o, 'm) model \<Rightarrow> 'o attack_cls \<Rightarrow> bool \<Rightarrow> ('o, 'l, 'm) target \<Rightarrow>
   (exn + ndarray list) \<times> ('o, 'l, 'm) target" where
  "run_art_attack labeller call attack_cls logging t =
     (let a = active_attack t;
          q = as_blackbox_art_target labeller call logging (attack_name a) (attack_id a);
          gen = (if targeted a
                 then attack_cls (parameters a) (samples a)
                        (Some (replicate (length (samples a)) (target_class a)))
                 else attack_cls (parameters a) (samples a) None)
      in case drive q gen t of
           (Inl e, t1) \<Rightarrow> (Inl e, t1)
         | (Inr adv_examples, t1) \<Rightarrow>
             (Inr adv_examples, t1\<lparr>active_attack := (active_attack t1)\<lparr>status := completed\<rparr>\<rparr>))"

text \<open>
  \<open>Target.run_attack\<close>. The method \<open>_run_attack\<close> of the subclass is the parameter
  \<open>run_attack_method\<close>, and \<open>elapsed\<close> is the difference of the two clock readings. The
  files written after the bookkeeping (images, archives) are not modelled.
\<close>

definition run_attack ::
  "(bool \<Rightarrow> ('o, 'l, 'm) target \<Rightarrow> (exn + ndarray list) \<times> ('o, 'l, 'm) target) \<Rightarrow>
   ('o, 'l) labeller \<Rightarrow> ('o, 'm) model \<Rightarrow> int \<Rightarrow> bool \<Rightarrow> ('o, 'l, 'm) target \<Rightarrow>
   (exn + unit) \<times> ('o, 'l, 'm) target" where
  "run_attack run_attack_method labeller call elapsed logging t =
     (let queries0 = num_evaluations t;
          actual_queries0 = actual_evaluations t
      in case run_attack_method logging t of
           (Inl e, t1) \<Rightarrow> (Inl e, t1)
         | (Inr resulting_samples, t1) \<Rightarrow>
             (case get_query labeller call resulting_samples t1 of
                (Inl e, t2) \<Rightarrow> (Inl e, t2)
              | (Inr fin, t2) \<Rightarrow>
                  (let n = num_evaluations t2 - queries0;
                       actual_queries = actual_evaluations t2 - actual_queries0
                   in (Inr (),
                       t2\<lparr>active_attack := (active_attack t2)\<lparr>results :=
                            (results (active_attack t2))
                              \<lparr>final := Some fin, elapsed_time := Some elapsed,
                               queries := Some n,
                               cache_hits := Some (n - actual_queries)\<rparr>\<rparr>\<rparr>))))"

text \<open>
  What a method \<open>_run_attack\<close> does to the target when it reaches it through the
  target's own submission methods: any number of cached, uncached and logged
  submissions, in any order, and writes to attributes of the attack object.
  \<open>submitted call labeller t s\<close> says that \<open>s\<close> comes from \<open>t\<close> in this way.
\<close>

inductive submitted ::
  "('o, 'm) model \<Rightarrow> ('o, 'l) labeller \<Rightarrow> ('o, 'l, 'm) target \<Rightarrow> ('o, 'l, 'm) target \<Rightarrow> bool"
  for call :: "('o, 'm) model" and labeller :: "('o, 'l) labeller" and t :: "('o, 'l, 'm) target" where
  nothing: "submitted call labeller t t"
| cached: "submitted call labeller t s \<Longrightarrow> submit_with_cache call b s = (r, s') \<Longrightarrow>
           submitted call labeller t s'"
| uncached: "submitted call labeller t s \<Longrightarrow> submit call b s = (r', s') \<Longrightarrow>
             submitted call labeller t s'"
| logged: "submitted call labeller t s \<Longrightarrow>
           submit_with_logging labeller call name ident b s = (r', s') \<Longrightarrow>
           submitted call labeller t s'"
| attribute: "submitted call labeller t s \<Longrightarrow>
              submitted call labeller t (s\<lparr>active_attack := a\<rparr>)"

section \<open>Success check\<close>





section \<open>Attack management\<close>






section \<open>The specification's reading of a cached submission\<close>

text \<open>
  The functions of this section are not taken from the code: they say, in the words of
  the specification, what a cached submission is to compute, and the code is compared
  with them below. The miss batch is the inputs whose key is absent, in their order;
  \<open>spec_miss_index\<close> is their positions, counted from \<open>i\<close>.
\<close>

definition spec_miss_batch :: "(byte list \<rightharpoonup> 'o) \<Rightarrow> ndarray list \<Rightarrow> ndarray list" where
  "spec_miss_batch c batch = filter (\<lambda>a. c (key a) = None) batch"

definition spec_miss_index :: "(byte list \<rightharpoonup> 'o) \<Rightarrow> nat \<Rightarrow> ndarray list \<Rightarrow> nat list" where
  "spec_miss_index c i batch =
     map fst (filter (\<lambda>(j, a). c (key a) = None) (zip [i..<i + length batch] batch))"

text \<open>
  The outputs: a hit gives its stored value, a miss takes the next output that the model
  returned (and keeps the placeholder when the model returned too few).
\<close>

fun spec_outputs :: "(byte list \<rightharpoonup> 'o) \<Rightarrow> ndarray list \<Rightarrow> 'o list \<Rightarrow> 'o option list" where
  "spec_outputs c [] rs = []"
| "spec_outputs c (a # as) rs =
     (case c (key a) of
        Some v \<Rightarrow> Some v # spec_outputs c as rs
      | None \<Rightarrow> (case rs of [] \<Rightarrow> None # spec_outputs c as []
                 | r # rs' \<Rightarrow> Some r # spec_outputs c as rs'))"

text \<open>The cache after the outputs of the misses have been written back, in order.\<close>

definition spec_cache :: "(byte list \<rightharpoonup> 'o) \<Rightarrow> ndarray list \<Rightarrow> 'o list \<Rightarrow> (byte list \<rightharpoonup> 'o)" where
  "spec_cache c ms rs = fold (\<lambda>(a, r) m. m(key a \<mapsto> r)) (zip ms rs) c"

section \<open>Sequences of submissions\<close>

text \<open>
  A caller's sequence of cached and uncached submissions, run one after the other on the
  target; what a call returns (or raises) does not stop the next one.
\<close>

datatype submission = Cached "ndarray list" | Uncached "ndarray list"

fun run_calls :: "('o, 'm) model \<Rightarrow> submission list \<Rightarrow> ('o, 'l, 'm) target \<Rightarrow> ('o, 'l, 'm) target" where
  "run_calls call [] t = t"
| "run_calls call (Cached b # cs) t = run_calls call cs (snd (submit_with_cache call b t))"
| "run_calls call (Uncached b # cs) t = run_calls call cs (snd (submit call b t))"

section \<open>Example inputs\<close>

text \<open>
  \<open>ex_A\<close> and \<open>ex_A'\<close> own the same eight bytes and differ in their element type: the
  64-bit integer 1 and the smallest positive double. \<open>ex_model\<close> is a stateless model
  that answers each array from its element type and size alone.
\<close>

definition ex_A :: ndarray where
  "ex_A = \<lparr>dtype = ''int64'', shape = [1], buf = [1, 0, 0, 0, 0, 0, 0, 0]\<rparr>"

definition ex_A' :: ndarray where
  "ex_A' = \<lparr>dtype = ''float64'', shape = [1], buf = [1, 0, 0, 0, 0, 0, 0, 0]\<rparr>"

definition ex_B :: ndarray where
  "ex_B = \<lparr>dtype = ''uint8'', shape = [2], buf = [7, 9]\<rparr>"

definition ex_C :: ndarray where
  "ex_C = \<lparr>dtype = ''uint8'', shape = [3], buf = [2, 4, 6]\<rparr>"

definition ex_model :: "(int, unit) model" where
  "ex_model m xs =
     (Inr (map (\<lambda>a. if dtype a = ''float64'' then 0 else int (length (buf a))) xs), m)"

definition ex_classes :: "string list" where
  "ex_classes = [''catA'', ''catB'', ''catC'']"

definition ex_labeller :: "(int, string) labeller" where
  "ex_labeller outs = map (\<lambda>v. if v < 5 then ''catA'' else ''catB'') outs"

definition ex_results :: "(int, string) results" where
  "ex_results = \<lparr>initial = None, final = None, elapsed_time = None, queries = None, cache_hits = None\<rparr>"

definition ex_attack :: "(int, string) attack" where
  "ex_attack = \<lparr>attack_name = ''hop_skip_jump'', attack_id = ''a1'', sample_index = 0,
     samples = [ex_A], parameters = [], target_class = TScalar 2, status = pending,
     results = ex_results, logs = []\<rparr>"

definition ex_target :: "(int, string, unit) target" where
  "ex_target = \<lparr>model_name = ''demo'', model_output_classes = ex_classes,
     active_attack = ex_attack, attacks = [(''a1'', ex_attack)], num_evaluations = 0,
     actual_evaluations = 0, cache = Map.empty, model_state = (), calls = []\<rparr>"

definition ex_cached :: "(int, string, unit) target" where
  "ex_cached = ex_target\<lparr>cache := [key ex_B \<mapsto> 42]\<rparr>"

text \<open>
  An attack that submits its samples once and returns \<open>[ex_B]\<close>, and one that gives up
  after its first submission. \<open>ex_probed\<close> is the example target after the initial
  probe, \<open>ex_done\<close> after a whole run, \<open>ex_failed\<close> after the failed attack.
\<close>

definition ex_attack_cls :: "int attack_cls" where
  "ex_attack_cls ps xs tc =
     Ask xs (\<lambda>r. case r of Inl e \<Rightarrow> Raise e | Inr outs \<Rightarrow> Return [ex_B])"

definition ex_failing_cls :: "int attack_cls" where
  "ex_failing_cls ps xs tc = Ask xs (\<lambda>r. Raise (AttackError ''no adversarial example''))"

definition ex_probed :: "(int, string, unit) target" where
  "ex_probed = snd (init_run_attack ex_labeller ex_model ex_target)"

definition ex_done :: "(int, string, unit) target" where
  "ex_done =
     snd (run_attack (run_art_attack ex_labeller ex_model ex_attack_cls) ex_labeller ex_model 5
            False ex_probed)"

definition ex_failed :: "(int, string, unit) target" where
  "ex_failed = snd (run_art_attack ex_labeller ex_model ex_failing_cls True ex_probed)"


text \<open>
  A method \<open>_run_attack\<close> that submits two candidates through the cache, and the example
  target with \<open>ex_B\<close> cached before and after a run with it.
\<close>

definition ex_cache_runner ::
  "bool \<Rightarrow> (int, string, unit) target \<Rightarrow> (exn + ndarray list) \<times> (int, string, unit) target" where
  "ex_cache_runner logging t =
     (case submit_with_cache ex_model [ex_A, ex_B] t of
        (r, t1) \<Rightarrow> (Inr [ex_B], t1\<lparr>active_attack := (active_attack t1)\<lparr>status := completed\<rparr>\<rparr>))"

definition ex_cache_probed :: "(int, string, unit) target" where
  "ex_cache_probed = snd (init_run_attack ex_labeller ex_model ex_cached)"

definition ex_cache_done :: "(int, string, unit) target" where
  "ex_cache_done = snd (run_attack ex_cache_runner ex_labeller ex_model 5 False ex_cache_probed)"


section \<open>Properties of the cached submission\<close>

lemma spec_miss_batch_simps:
  "spec_miss_batch c [] = []"
  "spec_miss_batch c (a # as) =
     (if c (key a) = None then a # spec_miss_batch c as else spec_miss_batch c as)"
  by (simp_all add: spec_miss_batch_def)

lemma spec_miss_index_Nil: "spec_miss_index c i [] = []"
  by (simp add: spec_miss_index_def)

lemma spec_miss_index_Cons:
  "spec_miss_index c i (a # as) =
     (if c (key a) = None then i # spec_miss_index c (Suc i) as
      else spec_miss_index c (Suc i) as)"
proof -
  have eq: "[i..<Suc (i + length as)] = i # [Suc i..<Suc (i + length as)]"
    by (rule upt_conv_Cons) simp
  show ?thesis by (simp add: spec_miss_index_def eq del: upt_Suc)
qed

lemma scan_batch_eq:
  "scan_batch c i batch (sb, ix, out) =
     (sb @ spec_miss_batch c batch, ix @ spec_miss_index c i batch, out @ map (\<lambda>a. c (key a)) batch)"
proof (induction batch arbitrary: i sb ix out)
  case Nil
  show ?case by (simp add: spec_miss_batch_simps spec_miss_index_Nil)
next
  case (Cons a as)
  show ?case
  proof (cases "c (key a)")
    case None
    then show ?thesis
      using Cons.IH [of "Suc i" "sb @ [a]" "ix @ [i]" "out @ [None]"]
      by (simp add: spec_miss_batch_simps spec_miss_index_Cons)
  next
    case (Some v)
    then show ?thesis
      using Cons.IH [of "Suc i" sb ix "out @ [Some v]"]
      by (simp add: spec_miss_batch_simps spec_miss_index_Cons)
  qed
qed

lemma spec_outputs_Nil: "spec_outputs c batch [] = map (\<lambda>a. c (key a)) batch"
  by (induction batch) (auto split: option.splits)

lemma merge_results_eq:
  "length pre = i \<Longrightarrow>
   merge_results (zip (spec_miss_index c0 i batch) (zip (spec_miss_batch c0 batch) rs))
       (c, pre @ map (\<lambda>a. c0 (key a)) batch) =
     (spec_cache c (spec_miss_batch c0 batch) rs, pre @ spec_outputs c0 batch rs)"
proof (induction batch arbitrary: i pre rs c)
  case Nil
  show ?case by (simp add: spec_miss_batch_simps spec_miss_index_Nil spec_cache_def)
next
  case (Cons a as)
  note IH = Cons.IH and len = Cons.prems
  show ?case
  proof (cases "c0 (key a)")
    case (Some v)
    have "length (pre @ [Some v]) = Suc i" using len by simp
    from IH [OF this, of rs c] show ?thesis
      by (simp add: Some spec_miss_batch_simps spec_miss_index_Cons)
  next
    case None
    show ?thesis
    proof (cases rs)
      case Nil
      then show ?thesis
        by (simp add: None spec_miss_batch_simps spec_miss_index_Cons spec_cache_def spec_outputs_Nil)
    next
      case (Cons r rs')
      have len': "length (pre @ [Some r]) = Suc i" using len by simp
      have upd: "(pre @ None # map (\<lambda>a. c0 (key a)) as)[i := Some r]
                   = pre @ Some r # map (\<lambda>a. c0 (key a)) as"
        using len by (simp add: list_update_append)
      have step: "merge_results (zip (spec_miss_index c0 (Suc i) as) (zip (spec_miss_batch c0 as) rs'))
                    (c(key a \<mapsto> r), (pre @ [Some r]) @ map (\<lambda>a. c0 (key a)) as) =
                  (spec_cache (c(key a \<mapsto> r)) (spec_miss_batch c0 as) rs',
                   (pre @ [Some r]) @ spec_outputs c0 as rs')"
        by (rule IH [OF len'])
      have "merge_results (zip (spec_miss_index c0 i (a # as)) (zip (spec_miss_batch c0 (a # as)) rs))
              (c, pre @ map (\<lambda>a. c0 (key a)) (a # as)) =
            merge_results (zip (spec_miss_index c0 (Suc i) as) (zip (spec_miss_batch c0 as) rs'))
              (c(key a \<mapsto> r), (pre @ [Some r]) @ map (\<lambda>a. c0 (key a)) as)"
        by (simp add: None Cons spec_miss_batch_simps spec_miss_index_Cons upd)
      also note step
      also have "(spec_cache (c(key a \<mapsto> r)) (spec_miss_batch c0 as) rs',
                   (pre @ [Some r]) @ spec_outputs c0 as rs') =
                 (spec_cache c (spec_miss_batch c0 (a # as)) rs, pre @ spec_outputs c0 (a # as) rs)"
        by (simp add: None Cons spec_miss_batch_simps spec_cache_def)
      finally show ?thesis .
    qed
  qed
qed

lemma submit_with_cache_eq:
  "submit_with_cache call batch t =
     (let ms = spec_miss_batch (cache t) batch;
          t1 = t\<lparr>num_evaluations := num_evaluations t + int (length batch)\<rparr>
      in if ms = [] then (Inr (map (\<lambda>a. cache t (key a)) batch), t1)
         else (case call (model_state t) ms of
                 (Inl e, m') \<Rightarrow>
                   (Inl e, t1\<lparr>actual_evaluations := actual_evaluations t + int (length ms),
                              model_state := m', calls := calls t @ [ms]\<rparr>)
               | (Inr rs, m') \<Rightarrow>
                   (Inr (spec_outputs (cache t) batch rs),
                    t1\<lparr>actual_evaluations := actual_evaluations t + int (length ms),
                       model_state := m', calls := calls t @ [ms],
                       cache := spec_cache (cache t) ms rs\<rparr>)))"
proof -
  have scan: "scan_batch (cache t) 0 batch ([], [], []) =
      (spec_miss_batch (cache t) batch, spec_miss_index (cache t) 0 batch, map (\<lambda>a. cache t (key a)) batch)"
    using scan_batch_eq [of "cache t" 0 batch "[]" "[]" "[]"] by simp
  have merge: "\<And>rs c. merge_results (zip (spec_miss_index (cache t) 0 batch) (zip (spec_miss_batch (cache t) batch) rs))
       (c, map (\<lambda>a. cache t (key a)) batch) =
     (spec_cache c (spec_miss_batch (cache t) batch) rs, spec_outputs (cache t) batch rs)"
    using merge_results_eq [of "[]" 0 "cache t" batch] by simp
  show ?thesis
    by (simp add: submit_with_cache_def scan merge invoke_def Let_def split: prod.splits sum.splits)
qed


lemma length_spec_outputs: "length (spec_outputs c batch rs) = length batch"
  by (induction batch arbitrary: rs) (auto split: option.splits list.splits)

lemma length_spec_miss_index:
  "length (spec_miss_index c i batch) = length (spec_miss_batch c batch)"
  by (induction batch arbitrary: i) (simp_all add: spec_miss_index_Nil spec_miss_index_Cons spec_miss_batch_simps)

lemma spec_outputs_hit:
  "i < length batch \<Longrightarrow> c (key (batch ! i)) \<noteq> None \<Longrightarrow>
   spec_outputs c batch rs ! i = c (key (batch ! i))"
proof (induction batch arbitrary: i rs)
  case Nil
  then show ?case by simp
next
  case (Cons a as)
  show ?case
  proof (cases i)
    case 0
    with Cons.prems show ?thesis by (auto split: option.splits)
  next
    case (Suc n)
    with Cons.prems have "n < length as" "c (key (as ! n)) \<noteq> None" by simp_all
    then have "\<And>rs. spec_outputs c as rs ! n = c (key (as ! n))" by (rule Cons.IH)
    with Suc show ?thesis by (simp split: option.splits list.splits)
  qed
qed

lemma spec_miss_index_nth:
  "j < length (spec_miss_batch c batch) \<Longrightarrow>
   i \<le> spec_miss_index c i batch ! j \<and>
   spec_miss_index c i batch ! j < i + length batch \<and>
   batch ! (spec_miss_index c i batch ! j - i) = spec_miss_batch c batch ! j \<and>
   spec_outputs c batch rs ! (spec_miss_index c i batch ! j - i) =
     (if j < length rs then Some (rs ! j) else None)"
proof (induction batch arbitrary: i j rs)
  case Nil
  then show ?case by (simp add: spec_miss_batch_simps)
next
  case (Cons a as)
  note IH = Cons.IH and prem = Cons.prems
  show ?case
  proof (cases "c (key a)")
    case (Some v)
    with prem have j: "j < length (spec_miss_batch c as)" by (simp add: spec_miss_batch_simps)
    from IH [OF j, of "Suc i" rs] Some show ?thesis
      by (auto simp: spec_miss_index_Cons spec_miss_batch_simps Suc_diff_le)
  next
    case None
    show ?thesis
    proof (cases j)
      case 0
      with None show ?thesis
        by (auto simp: spec_miss_index_Cons spec_miss_batch_simps split: list.splits)
    next
      case (Suc n)
      with prem None have n: "n < length (spec_miss_batch c as)" by (simp add: spec_miss_batch_simps)
      show ?thesis
      proof (cases rs)
        case Nil
        from IH [OF n, of "Suc i" "[]"] None Suc Nil show ?thesis
          by (auto simp: spec_miss_index_Cons spec_miss_batch_simps Suc_diff_le)
      next
        case (Cons r rs')
        from IH [OF n, of "Suc i" rs'] None Suc Cons show ?thesis
          by (auto simp: spec_miss_index_Cons spec_miss_batch_simps Suc_diff_le)
      qed
    qed
  qed
qed

text \<open>
  Claim C1. A cached submission that returns gives one output for each input, in the
  order of the inputs: an input whose key is in the cache gets the stored value at its
  own position; the other inputs, in their order, are the one batch handed to the model
  (no call when there is none); the model's outputs are written back into the cache,
  and the \<open>j\<close>-th of them stands at the position of the \<open>j\<close>-th miss.
\<close>

theorem submit_with_cache_merges:
  fixes call :: "('o, 'm) model" and t t' :: "('o, 'l, 'm) target" and batch :: "ndarray list"
  defines "ms \<equiv> spec_miss_batch (cache t) batch"
  defines "ix \<equiv> spec_miss_index (cache t) 0 batch"
  assumes ok: "submit_with_cache call batch t = (Inr out, t')"
  shows "length out = length batch \<and>
         (\<forall>i<length batch. cache t (key (batch ! i)) \<noteq> None \<longrightarrow>
              out ! i = cache t (key (batch ! i))) \<and>
         ms = filter (\<lambda>a. cache t (key a) = None) batch \<and>
         calls t' = calls t @ (if ms = [] then [] else [ms]) \<and>
         (\<exists>rs. (ms \<noteq> [] \<longrightarrow> call (model_state t) ms = (Inr rs, model_state t')) \<and>
               out = spec_outputs (cache t) batch rs \<and>
               cache t' = spec_cache (cache t) ms rs \<and>
               (\<forall>j<length ms. ix ! j < length batch \<and> batch ! (ix ! j) = ms ! j \<and>
                    out ! (ix ! j) = (if j < length rs then Some (rs ! j) else None)))"
proof -
  have pos: "\<And>rs j. j < length ms \<Longrightarrow>
      ix ! j < length batch \<and> batch ! (ix ! j) = ms ! j \<and>
      spec_outputs (cache t) batch rs ! (ix ! j) = (if j < length rs then Some (rs ! j) else None)"
    using spec_miss_index_nth [of _ "cache t" batch 0] by (simp add: ms_def ix_def)
  have hit: "\<And>rs. \<forall>i<length batch. cache t (key (batch ! i)) \<noteq> None \<longrightarrow>
              spec_outputs (cache t) batch rs ! i = cache t (key (batch ! i))"
    by (simp add: spec_outputs_hit)
  have flt: "ms = filter (\<lambda>a. cache t (key a) = None) batch"
    by (simp add: ms_def spec_miss_batch_def)
  show ?thesis
  proof (cases "ms = []")
    case True
    with ok have out: "out = spec_outputs (cache t) batch []"
      and t': "t' = t\<lparr>num_evaluations := num_evaluations t + int (length batch)\<rparr>"
      by (simp_all add: submit_with_cache_eq ms_def [symmetric] spec_outputs_Nil)
    have "cache t' = spec_cache (cache t) ms []" by (simp add: t' spec_cache_def)
    with True out t' flt hit [of "[]"] show ?thesis
      by (auto simp: length_spec_outputs)
  next
    case False
    obtain r m' where call: "call (model_state t) ms = (r, m')" by (cases "call (model_state t) ms")
    with ok False obtain rs where r: "r = Inr rs"
      by (cases r) (auto simp: submit_with_cache_eq ms_def [symmetric] Let_def)
    from ok False call r have out: "out = spec_outputs (cache t) batch rs"
      and t': "t' = t\<lparr>num_evaluations := num_evaluations t + int (length batch),
                      actual_evaluations := actual_evaluations t + int (length ms),
                      model_state := m', calls := calls t @ [ms],
                      cache := spec_cache (cache t) ms rs\<rparr>"
      by (simp_all add: submit_with_cache_eq ms_def [symmetric] Let_def)
    have a: "length out = length batch" by (simp add: out length_spec_outputs)
    have b: "\<forall>i<length batch. cache t (key (batch ! i)) \<noteq> None \<longrightarrow>
              out ! i = cache t (key (batch ! i))"
      unfolding out by (rule hit)
    have c: "calls t' = calls t @ (if ms = [] then [] else [ms])" using False by (simp add: t')
    have d: "(ms \<noteq> [] \<longrightarrow> call (model_state t) ms = (Inr rs, model_state t')) \<and>
               out = spec_outputs (cache t) batch rs \<and>
               cache t' = spec_cache (cache t) ms rs \<and>
               (\<forall>j<length ms. ix ! j < length batch \<and> batch ! (ix ! j) = ms ! j \<and>
                    out ! (ix ! j) = (if j < length rs then Some (rs ! j) else None))"
      using call r pos [of _ rs] by (simp add: t' out)
    from a b flt c d show ?thesis by blast
  qed
qed

theorem submit_with_cache_merges_witness:
  "fst (submit_with_cache ex_model [ex_A, ex_B, ex_C] ex_cached) = Inr [Some 8, Some 42, Some 3] \<and>
   length [Some (8::int), Some 42, Some 3] = length [ex_A, ex_B, ex_C] \<and>
   calls (snd (submit_with_cache ex_model [ex_A, ex_B, ex_C] ex_cached)) = [[ex_A, ex_C]]"
proof -
  have f: "fst (submit_with_cache ex_model [ex_A, ex_B, ex_C] ex_cached) =
             Inr [Some 8, Some 42, Some 3]"
    by (simp add: submit_with_cache_def ex_cached_def ex_target_def ex_model_def key_def ex_A_def
      ex_B_def ex_C_def invoke_def)
  have ev: "submit_with_cache ex_model [ex_A, ex_B, ex_C] ex_cached =
     (Inr [Some 8, Some 42, Some 3], snd (submit_with_cache ex_model [ex_A, ex_B, ex_C] ex_cached))"
    by (simp add: prod_eq_iff f)
  have ms: "spec_miss_batch (cache ex_cached) [ex_A, ex_B, ex_C] = [ex_A, ex_C]"
    by (simp add: spec_miss_batch_def ex_cached_def ex_target_def key_def ex_A_def ex_B_def ex_C_def)
  have "calls ex_cached = []" by (simp add: ex_cached_def ex_target_def)
  with submit_with_cache_merges [OF ev]
  have "calls (snd (submit_with_cache ex_model [ex_A, ex_B, ex_C] ex_cached)) = [[ex_A, ex_C]]"
    by (simp add: ms)
  with f show ?thesis by simp
qed

lemma spec_cache_Nil: "spec_cache c [] rs = c" "spec_cache c ms [] = c"
  by (simp_all add: spec_cache_def)

lemma spec_cache_Cons: "spec_cache c (a # ms) (r # rs) = spec_cache (c(key a \<mapsto> r)) ms rs"
  by (simp add: spec_cache_def)

lemma spec_cache_other:
  "k \<notin> key ` set ms \<Longrightarrow> spec_cache c ms rs k = c k"
proof (induction ms arbitrary: c rs)
  case Nil
  show ?case by (simp add: spec_cache_Nil)
next
  case (Cons a ms)
  note IH = Cons.IH and prem = Cons.prems
  show ?case
  proof (cases rs)
    case Nil
    then show ?thesis by (simp add: spec_cache_Nil)
  next
    case (Cons r rs')
    from prem have "k \<notin> key ` set ms" and "k \<noteq> key a" by auto
    then show ?thesis by (simp add: Cons spec_cache_Cons IH)
  qed
qed

lemma submit_with_cache_caches:
  assumes "submit_with_cache call [a] t = (Inr [Some v], t1)"
  shows "cache t1 (key a) = Some v"
proof (cases "cache t (key a)")
  case (Some w)
  with assms show ?thesis
    by (auto simp: submit_with_cache_eq spec_miss_batch_simps)
next
  case None
  obtain r m' where c: "call (model_state t) [a] = (r, m')" by (cases "call (model_state t) [a]")
  with assms None obtain rs where r: "r = Inr rs"
    by (cases r) (auto simp: submit_with_cache_eq spec_miss_batch_simps Let_def)
  with assms None c obtain rs' where "rs = v # rs'"
    by (cases rs) (auto simp: submit_with_cache_eq spec_miss_batch_simps Let_def)
  with assms None c r show ?thesis
    by (auto simp: submit_with_cache_eq spec_miss_batch_simps spec_cache_Cons spec_cache_Nil Let_def)
qed

text \<open>
  Claim C2. Let \<open>a\<close> and \<open>b\<close> own the same bytes, and let the cached submission of
  \<open>[a]\<close> have returned the output \<open>v\<close>. Then the cached submission of \<open>[b]\<close> returns the
  same \<open>v\<close>, and the only change of the target is the logical counter: the model is not
  called (the trace of calls and the model's state are as before) and
  \<open>actual_evaluations\<close> does not move.
\<close>

theorem identical_bytes_hit_cache:
  assumes bytes: "buf a = buf b"
    and first: "submit_with_cache call [a] t = (Inr [Some v], t1)"
  shows "submit_with_cache call [b] t1 =
           (Inr [Some v], t1\<lparr>num_evaluations := num_evaluations t1 + 1\<rparr>) \<and>
         actual_evaluations (snd (submit_with_cache call [b] t1)) = actual_evaluations t1 \<and>
         calls (snd (submit_with_cache call [b] t1)) = calls t1"
proof -
  have "key b = key a" using bytes by (simp add: key_def)
  with submit_with_cache_caches [OF first] have "cache t1 (key b) = Some v" by simp
  then show ?thesis
    by (simp add: submit_with_cache_eq spec_miss_batch_simps)
qed

theorem identical_bytes_hit_cache_witness:
  "buf ex_A = buf ex_A' \<and>
   fst (submit_with_cache ex_model [ex_A] ex_target) = Inr [Some 8] \<and>
   fst (submit_with_cache ex_model [ex_A'] (snd (submit_with_cache ex_model [ex_A] ex_target)))
     = Inr [Some 8] \<and>
   actual_evaluations (snd (submit_with_cache ex_model [ex_A] ex_target)) = 1 \<and>
   actual_evaluations
     (snd (submit_with_cache ex_model [ex_A'] (snd (submit_with_cache ex_model [ex_A] ex_target))))
     = 1"
proof -
  have b: "buf ex_A = buf ex_A'" by (simp add: ex_A_def ex_A'_def)
  have f: "fst (submit_with_cache ex_model [ex_A] ex_target) = Inr [Some 8]"
    by (simp add: submit_with_cache_def ex_target_def ex_model_def key_def ex_A_def invoke_def)
  have a: "actual_evaluations (snd (submit_with_cache ex_model [ex_A] ex_target)) = 1"
    by (simp add: submit_with_cache_def ex_target_def ex_model_def key_def ex_A_def invoke_def)
  have ev: "submit_with_cache ex_model [ex_A] ex_target =
              (Inr [Some 8], snd (submit_with_cache ex_model [ex_A] ex_target))"
    by (simp add: prod_eq_iff f)
  from identical_bytes_hit_cache [OF b ev] a f b show ?thesis by simp
qed

text \<open>
  Claim C3. Of the \<open>N\<close> inputs of a cached submission let \<open>M\<close> have their key in the
  cache. Then the submission adds to the trace of model calls exactly one call, which
  carries the \<open>N - M\<close> misses, and adds nothing when \<open>M = N\<close>. This holds whatever the
  model answers.
\<close>

theorem one_model_call_per_submission:
  fixes call :: "('o, 'm) model" and t :: "('o, 'l, 'm) target" and batch :: "ndarray list"
  defines "N \<equiv> length batch"
  defines "M \<equiv> length (filter (\<lambda>a. cache t (key a) \<noteq> None) batch)"
  shows "M \<le> N \<and>
         length (spec_miss_batch (cache t) batch) = N - M \<and>
         calls (snd (submit_with_cache call batch t)) =
           calls t @ (if M = N then [] else [spec_miss_batch (cache t) batch])"
proof -
  have sum: "M + length (spec_miss_batch (cache t) batch) = N"
    using sum_length_filter_compl [of "\<lambda>a. cache t (key a) \<noteq> None" batch]
    by (simp add: M_def N_def spec_miss_batch_def)
  then have le: "M \<le> N" and len: "length (spec_miss_batch (cache t) batch) = N - M"
    by simp_all
  from sum have iff: "M = N \<longleftrightarrow> spec_miss_batch (cache t) batch = []" by auto
  have "calls (snd (submit_with_cache call batch t)) =
           calls t @ (if spec_miss_batch (cache t) batch = [] then []
                      else [spec_miss_batch (cache t) batch])"
    by (simp add: submit_with_cache_eq Let_def split: prod.splits sum.splits)
  with le len iff show ?thesis by simp
qed

theorem one_model_call_per_submission_witness:
  "length (filter (\<lambda>a. cache ex_cached (key a) \<noteq> None) [ex_A, ex_B, ex_C]) = 1 \<and>
   calls (snd (submit_with_cache ex_model [ex_A, ex_B, ex_C] ex_cached)) = [[ex_A, ex_C]] \<and>
   length (filter (\<lambda>a. cache ex_cached (key a) \<noteq> None) [ex_B]) = 1 \<and>
   calls (snd (submit_with_cache ex_model [ex_B] ex_cached)) = []"
proof -
  have m3: "length (filter (\<lambda>a. cache ex_cached (key a) \<noteq> None) [ex_A, ex_B, ex_C]) = 1"
    by (simp add: ex_cached_def ex_target_def key_def ex_A_def ex_B_def ex_C_def)
  have m1: "length (filter (\<lambda>a. cache ex_cached (key a) \<noteq> None) [ex_B]) = 1"
    by (simp add: ex_cached_def ex_target_def key_def ex_B_def)
  have ms: "spec_miss_batch (cache ex_cached) [ex_A, ex_B, ex_C] = [ex_A, ex_C]"
    by (simp add: spec_miss_batch_def ex_cached_def ex_target_def key_def ex_A_def ex_B_def ex_C_def)
  have c0: "calls ex_cached = []" by (simp add: ex_cached_def ex_target_def)
  from one_model_call_per_submission [of ex_cached "[ex_A, ex_B, ex_C]" ex_model]
  have a: "calls (snd (submit_with_cache ex_model [ex_A, ex_B, ex_C] ex_cached)) = [[ex_A, ex_C]]"
    unfolding m3 ms c0 by simp
  from one_model_call_per_submission [of ex_cached "[ex_B]" ex_model]
  have b: "calls (snd (submit_with_cache ex_model [ex_B] ex_cached)) = []"
    unfolding m1 c0 by simp
  from m3 m1 a b show ?thesis by simp
qed

lemma submit_with_cache_counters:
  "num_evaluations (snd (submit_with_cache call batch t)) = num_evaluations t + int (length batch)"
  "actual_evaluations (snd (submit_with_cache call batch t)) =
     actual_evaluations t + int (length (spec_miss_batch (cache t) batch))"
  by (simp_all add: submit_with_cache_eq Let_def split: prod.splits sum.splits)

lemma submit_counters:
  "num_evaluations (snd (submit call batch t)) = num_evaluations t + int (length batch)"
  "actual_evaluations (snd (submit call batch t)) = actual_evaluations t + int (length batch)"
  by (simp_all add: submit_def invoke_def split: prod.splits)

lemma length_spec_miss_batch_le: "length (spec_miss_batch c batch) \<le> length batch"
  by (simp add: spec_miss_batch_def)

lemma run_calls_invariant:
  "actual_evaluations t \<le> num_evaluations t \<Longrightarrow>
   actual_evaluations (run_calls call cs t) \<le> num_evaluations (run_calls call cs t)"
proof (induction cs arbitrary: t)
  case Nil
  then show ?case by simp
next
  case (Cons c cs)
  show ?case
  proof (cases c)
    case (Cached b)
    have "actual_evaluations (snd (submit_with_cache call b t))
            \<le> num_evaluations (snd (submit_with_cache call b t))"
      using Cons.prems length_spec_miss_batch_le [of "cache t" b]
      by (simp add: submit_with_cache_counters)
    then show ?thesis using Cached by (simp add: Cons.IH)
  next
    case (Uncached b)
    have "actual_evaluations (snd (submit call b t)) \<le> num_evaluations (snd (submit call b t))"
      using Cons.prems by (simp add: submit_counters)
    then show ?thesis using Uncached by (simp add: Cons.IH)
  qed
qed

text \<open>
  Claim C4. A cached submission advances \<open>num_evaluations\<close> by the number of inputs and
  \<open>actual_evaluations\<close> by the size of the miss batch; an uncached one advances both by
  the number of inputs. Hence, from equal counters, \<open>actual_evaluations\<close> never exceeds
  \<open>num_evaluations\<close> after any number of calls of any sequence.
\<close>

theorem counters_advance:
  "num_evaluations (snd (submit_with_cache call batch t)) =
     num_evaluations t + int (length batch) \<and>
   actual_evaluations (snd (submit_with_cache call batch t)) =
     actual_evaluations t + int (length (spec_miss_batch (cache t) batch)) \<and>
   num_evaluations (snd (submit call batch t)) = num_evaluations t + int (length batch) \<and>
   actual_evaluations (snd (submit call batch t)) = actual_evaluations t + int (length batch) \<and>
   (num_evaluations t = actual_evaluations t \<longrightarrow>
      (\<forall>cs n. actual_evaluations (run_calls call (take n cs) t)
                 \<le> num_evaluations (run_calls call (take n cs) t)))"
  by (simp add: submit_with_cache_counters submit_counters run_calls_invariant)

theorem counters_advance_witness:
  "num_evaluations ex_cached = actual_evaluations ex_cached \<and>
   num_evaluations (snd (submit_with_cache ex_model [ex_A, ex_B, ex_C] ex_cached)) = 3 \<and>
   actual_evaluations (snd (submit_with_cache ex_model [ex_A, ex_B, ex_C] ex_cached)) = 2 \<and>
   actual_evaluations (run_calls ex_model [Cached [ex_A, ex_B], Uncached [ex_B]] ex_cached)
     \<le> num_evaluations (run_calls ex_model [Cached [ex_A, ex_B], Uncached [ex_B]] ex_cached)"
proof -
  have eq: "num_evaluations ex_cached = actual_evaluations ex_cached"
    and n0: "num_evaluations ex_cached = 0"
    by (simp_all add: ex_cached_def ex_target_def)
  have ms: "spec_miss_batch (cache ex_cached) [ex_A, ex_B, ex_C] = [ex_A, ex_C]"
    by (simp add: spec_miss_batch_def ex_cached_def ex_target_def key_def ex_A_def ex_B_def ex_C_def)
  note inst = counters_advance [of ex_model "[ex_A, ex_B, ex_C]" ex_cached]
  from inst have a: "num_evaluations (snd (submit_with_cache ex_model [ex_A, ex_B, ex_C] ex_cached)) = 3"
    using n0 by simp
  from inst have b: "actual_evaluations (snd (submit_with_cache ex_model [ex_A, ex_B, ex_C] ex_cached)) = 2"
    using n0 eq unfolding ms by simp
  from inst eq have "\<forall>cs n. actual_evaluations (run_calls ex_model (take n cs) ex_cached)
                 \<le> num_evaluations (run_calls ex_model (take n cs) ex_cached)"
    by blast
  from this [rule_format, of 2 "[Cached [ex_A, ex_B], Uncached [ex_B]]"]
  have c: "actual_evaluations (run_calls ex_model [Cached [ex_A, ex_B], Uncached [ex_B]] ex_cached)
     \<le> num_evaluations (run_calls ex_model [Cached [ex_A, ex_B], Uncached [ex_B]] ex_cached)"
    by simp
  from eq a b c show ?thesis by simp
qed

lemma spec_cache_agree:
  "length ms \<le> length rs \<Longrightarrow> k \<in> key ` set ms \<Longrightarrow>
   (\<And>a r'. (a, r') \<in> set (zip ms rs) \<Longrightarrow> key a = k \<Longrightarrow> r' = r) \<Longrightarrow>
   spec_cache c ms rs k = Some r"
proof (induction ms arbitrary: c rs)
  case Nil
  then show ?case by simp
next
  case (Cons a ms)
  note IH = Cons.IH and prem = Cons.prems
  from prem(1) obtain r0 rs' where rs: "rs = r0 # rs'" by (cases rs) auto
  with prem(1) have len: "length ms \<le> length rs'" by simp
  have agree: "\<And>a' r'. (a', r') \<in> set (zip ms rs') \<Longrightarrow> key a' = k \<Longrightarrow> r' = r"
    using prem(3) rs by auto
  show ?case
  proof (cases "k \<in> key ` set ms")
    case True
    from IH [OF len True agree] show ?thesis by (simp add: rs spec_cache_Cons)
  next
    case False
    with prem(2) have ka: "key a = k" by auto
    with prem(3) [of a r0] rs have "r0 = r" by simp
    with False ka show ?thesis by (simp add: rs spec_cache_Cons spec_cache_other)
  qed
qed

lemma spec_outputs_miss:
  "i < length batch \<Longrightarrow> c (key (batch ! i)) = None \<Longrightarrow>
   length (spec_miss_batch c batch) \<le> length rs \<Longrightarrow>
   \<exists>j<length (spec_miss_batch c batch).
      spec_miss_batch c batch ! j = batch ! i \<and> spec_outputs c batch rs ! i = Some (rs ! j)"
proof (induction batch arbitrary: i rs)
  case Nil
  then show ?case by simp
next
  case (Cons a as)
  note IH = Cons.IH and prem = Cons.prems
  show ?case
  proof (cases "c (key a)")
    case (Some v)
    with prem(2) obtain n where i: "i = Suc n" by (cases i) auto
    with prem Some have "n < length as" "c (key (as ! n)) = None"
      "length (spec_miss_batch c as) \<le> length rs"
      by (simp_all add: spec_miss_batch_simps)
    from IH [OF this] Some i show ?thesis by (simp add: spec_miss_batch_simps)
  next
    case None
    with prem(3) obtain r rs' where rs: "rs = r # rs'"
      by (cases rs) (auto simp: spec_miss_batch_simps)
    show ?thesis
    proof (cases i)
      case 0
      with None rs show ?thesis by (auto simp: spec_miss_batch_simps)
    next
      case (Suc n)
      with prem None rs have "n < length as" "c (key (as ! n)) = None"
        "length (spec_miss_batch c as) \<le> length rs'"
        by (simp_all add: spec_miss_batch_simps)
      from IH [OF this] obtain j where j: "j < length (spec_miss_batch c as)"
        "spec_miss_batch c as ! j = as ! n" "spec_outputs c as rs' ! n = Some (rs' ! j)"
        by blast
      have "Suc j < length (spec_miss_batch c (a # as)) \<and>
            spec_miss_batch c (a # as) ! Suc j = (a # as) ! i \<and>
            spec_outputs c (a # as) rs ! i = Some (rs ! Suc j)"
        using j None rs Suc by (simp add: spec_miss_batch_simps)
      then show ?thesis by blast
    qed
  qed
qed

text \<open>
  Claim C10, as amended. Let the model return one output for each input, and let it have
  given equal outputs to missed inputs that share a key (as it must when their keys are
  pairwise distinct). Then after a cached submission has returned, every input has an
  output, its key is in the cache, and the cached value is the output at its position.
\<close>

theorem cache_holds_outputs:
  fixes call :: "('o, 'm) model" and t t' :: "('o, 'l, 'm) target" and batch :: "ndarray list"
  defines "ms \<equiv> spec_miss_batch (cache t) batch"
  assumes ok: "submit_with_cache call batch t = (Inr out, t')"
    and contract: "\<forall>m xs rs m'. call m xs = (Inr rs, m') \<longrightarrow> length rs = length xs"
    and agree: "\<forall>rs m'. call (model_state t) ms = (Inr rs, m') \<longrightarrow>
                  (\<forall>j<length ms. \<forall>k<length ms. key (ms ! j) = key (ms ! k) \<longrightarrow> rs ! j = rs ! k)"
  shows "\<forall>i<length batch. out ! i \<noteq> None \<and> cache t' (key (batch ! i)) = out ! i"
proof (intro allI impI)
  fix i assume i: "i < length batch"
  have key_ms: "\<And>a. a \<in> set ms \<Longrightarrow> cache t (key a) = None"
    by (simp add: ms_def spec_miss_batch_def)
  show "out ! i \<noteq> None \<and> cache t' (key (batch ! i)) = out ! i"
  proof (cases "ms = []")
    case True
    with ok have out: "out = map (\<lambda>a. cache t (key a)) batch" and c: "cache t' = cache t"
      by (auto simp: submit_with_cache_eq ms_def [symmetric])
    from True i have "cache t (key (batch ! i)) \<noteq> None"
      by (auto simp: ms_def spec_miss_batch_def filter_empty_conv)
    with i show ?thesis by (simp add: out c)
  next
    case False
    obtain r m' where call: "call (model_state t) ms = (r, m')" by (cases "call (model_state t) ms")
    with ok False obtain rs where r: "r = Inr rs"
      by (cases r) (auto simp: submit_with_cache_eq ms_def [symmetric] Let_def)
    from ok False call r have out: "out = spec_outputs (cache t) batch rs"
      and c: "cache t' = spec_cache (cache t) ms rs"
      by (auto simp: submit_with_cache_eq ms_def [symmetric] Let_def)
    from contract call r have len: "length rs = length ms" by blast
    from agree call r have ag: "\<And>j k. j < length ms \<Longrightarrow> k < length ms \<Longrightarrow>
        key (ms ! j) = key (ms ! k) \<Longrightarrow> rs ! j = rs ! k" by blast
    show ?thesis
    proof (cases "cache t (key (batch ! i))")
      case (Some v)
      then have "key (batch ! i) \<notin> key ` set ms" using key_ms by force
      then have "cache t' (key (batch ! i)) = cache t (key (batch ! i))"
        by (simp add: c spec_cache_other)
      moreover have "out ! i = cache t (key (batch ! i))"
        using i Some by (simp add: out spec_outputs_hit)
      ultimately show ?thesis using Some by simp
    next
      case None
      from spec_outputs_miss [of i batch "cache t" rs] i None len
      obtain j where j: "j < length ms" "ms ! j = batch ! i" "out ! i = Some (rs ! j)"
        by (auto simp: ms_def out)
      have "spec_cache (cache t) ms rs (key (batch ! i)) = Some (rs ! j)"
      proof (rule spec_cache_agree)
        show "length ms \<le> length rs" using len by simp
        show "key (batch ! i) \<in> key ` set ms" using j by (metis imageI nth_mem)
        fix a r' assume z: "(a, r') \<in> set (zip ms rs)" and k: "key a = key (batch ! i)"
        from z obtain n where n: "n < length ms" "ms ! n = a" "rs ! n = r'"
          by (auto simp: set_zip)
        with ag [of n j] j k show "r' = rs ! j" by simp
      qed
      with j show ?thesis by (simp add: c)
    qed
  qed
qed

text \<open>
  Claim C10 as stated fails when two inputs of one batch share their bytes and the model
  tells them apart: both miss, the second write to the cache wins, and the cached value
  is no longer the output at the first position. Here the model returns one output for
  each of its two inputs.
\<close>

theorem cache_holds_outputs_counterexample:
  "ex_model () [ex_A, ex_A'] = (Inr [8, 0], ()) \<and>
   fst (submit_with_cache ex_model [ex_A, ex_A'] ex_target) = Inr [Some 8, Some 0] \<and>
   cache (snd (submit_with_cache ex_model [ex_A, ex_A'] ex_target)) (key ([ex_A, ex_A'] ! 0))
     = Some 0 \<and>
   cache (snd (submit_with_cache ex_model [ex_A, ex_A'] ex_target)) (key ([ex_A, ex_A'] ! 0))
     \<noteq> [Some 8, Some 0] ! 0"
  by (simp add: submit_with_cache_def ex_target_def ex_model_def key_def ex_A_def ex_A'_def
      invoke_def)

theorem cache_holds_outputs_witness:
  "fst (submit_with_cache ex_model [ex_A, ex_B, ex_C] ex_cached) = Inr [Some 8, Some 42, Some 3] \<and>
   cache (snd (submit_with_cache ex_model [ex_A, ex_B, ex_C] ex_cached)) (key ex_A) = Some 8 \<and>
   cache (snd (submit_with_cache ex_model [ex_A, ex_B, ex_C] ex_cached)) (key ex_B) = Some 42 \<and>
   cache (snd (submit_with_cache ex_model [ex_A, ex_B, ex_C] ex_cached)) (key ex_C) = Some 3"
proof -
  have f: "fst (submit_with_cache ex_model [ex_A, ex_B, ex_C] ex_cached) =
             Inr [Some 8, Some 42, Some 3]"
    by (simp add: submit_with_cache_def ex_cached_def ex_target_def ex_model_def key_def ex_A_def
      ex_B_def ex_C_def invoke_def)
  have ev: "submit_with_cache ex_model [ex_A, ex_B, ex_C] ex_cached =
     (Inr [Some 8, Some 42, Some 3], snd (submit_with_cache ex_model [ex_A, ex_B, ex_C] ex_cached))"
    by (simp add: prod_eq_iff f)
  have contract: "\<forall>m xs rs m'. ex_model m xs = (Inr rs, m') \<longrightarrow> length rs = length xs"
    by (auto simp: ex_model_def)
  have ms: "spec_miss_batch (cache ex_cached) [ex_A, ex_B, ex_C] = [ex_A, ex_C]"
    by (simp add: spec_miss_batch_def ex_cached_def ex_target_def key_def ex_A_def ex_B_def ex_C_def)
  have agree: "\<forall>rs m'. ex_model (model_state ex_cached)
                  (spec_miss_batch (cache ex_cached) [ex_A, ex_B, ex_C]) = (Inr rs, m') \<longrightarrow>
      (\<forall>j<length (spec_miss_batch (cache ex_cached) [ex_A, ex_B, ex_C]).
       \<forall>k<length (spec_miss_batch (cache ex_cached) [ex_A, ex_B, ex_C]).
          key (spec_miss_batch (cache ex_cached) [ex_A, ex_B, ex_C] ! j) =
          key (spec_miss_batch (cache ex_cached) [ex_A, ex_B, ex_C] ! k) \<longrightarrow> rs ! j = rs ! k)"
    unfolding ms by (auto simp: less_Suc_eq key_def ex_A_def ex_C_def)
  note all = cache_holds_outputs [OF ev contract agree, rule_format]
  from all [of 0] all [of 1] all [of 2] f show ?thesis by simp
qed

section \<open>Properties of the attack lifecycle\<close>

text \<open>What a submission leaves alone, and how far it moves the two counters.\<close>

lemma invoke_frame:
  "invoke call b t = (r, t') \<Longrightarrow>
   num_evaluations t' = num_evaluations t \<and> actual_evaluations t' = actual_evaluations t \<and>
   active_attack t' = active_attack t"
  by (auto simp: invoke_def split: prod.splits)

lemma submit_frame:
  "submit call b t = (r, t') \<Longrightarrow>
   num_evaluations t' = num_evaluations t + int (length b) \<and>
   actual_evaluations t' = actual_evaluations t + int (length b) \<and>
   active_attack t' = active_attack t"
  by (auto simp: submit_def dest!: invoke_frame)

lemma submit_with_logging_frame:
  "submit_with_logging labeller call name ident b t = (r, t') \<Longrightarrow>
   num_evaluations t' = num_evaluations t + int (length b) \<and>
   actual_evaluations t' = actual_evaluations t + int (length b) \<and>
   status (active_attack t') = status (active_attack t) \<and>
   results (active_attack t') = results (active_attack t)"
  by (auto simp: submit_with_logging_def Let_def split: prod.splits sum.splits dest!: submit_frame)

lemma blackbox_frame:
  "as_blackbox_art_target labeller call logging name ident b t = (r, t') \<Longrightarrow>
   num_evaluations t' - num_evaluations t = actual_evaluations t' - actual_evaluations t \<and>
   status (active_attack t') = status (active_attack t) \<and>
   results (active_attack t') = results (active_attack t)"
  by (cases logging)
     (auto simp: as_blackbox_art_target_def dest!: submit_frame submit_with_logging_frame)

lemma drive_frame:
  "drive (as_blackbox_art_target labeller call logging name ident) gen t = (r, t') \<Longrightarrow>
   num_evaluations t' - num_evaluations t = actual_evaluations t' - actual_evaluations t \<and>
   status (active_attack t') = status (active_attack t) \<and>
   results (active_attack t') = results (active_attack t)"
proof (induction gen arbitrary: t)
  case (Return xs)
  then show ?case by simp
next
  case (Raise e)
  then show ?case by simp
next
  case (Ask b k)
  obtain r1 t1 where q: "as_blackbox_art_target labeller call logging name ident b t = (r1, t1)"
    by (cases "as_blackbox_art_target labeller call logging name ident b t")
  with Ask.prems have d: "drive (as_blackbox_art_target labeller call logging name ident) (k r1) t1 = (r, t')"
    by simp
  have "k r1 \<in> range k" by simp
  from Ask.IH [OF this d] blackbox_frame [OF q] show ?case by simp
qed

lemma run_art_attack_frame:
  "run_art_attack labeller call attack_cls logging t = (r, t') \<Longrightarrow>
   num_evaluations t' - num_evaluations t = actual_evaluations t' - actual_evaluations t \<and>
   results (active_attack t') = results (active_attack t) \<and>
   (case r of Inl e \<Rightarrow> status (active_attack t') = status (active_attack t)
            | Inr xs \<Rightarrow> status (active_attack t') = completed)"
  by (auto simp: run_art_attack_def Let_def split: prod.splits sum.splits if_splits dest!: drive_frame)

lemma get_query_frame:
  "get_query labeller call b t = (r, t') \<Longrightarrow>
   num_evaluations t' = num_evaluations t + int (length b) \<and>
   actual_evaluations t' = actual_evaluations t + int (length b) \<and>
   active_attack t' = active_attack t"
  by (auto simp: get_query_def split: prod.splits sum.splits dest!: submit_frame)

lemma run_attack_Inr:
  assumes "run_attack m labeller call elapsed logging t = (Inr u, t')"
  shows "queries (results (active_attack t')) = Some (num_evaluations t' - num_evaluations t) \<and>
         cache_hits (results (active_attack t')) =
           Some ((num_evaluations t' - num_evaluations t) -
                 (actual_evaluations t' - actual_evaluations t))"
  using assms
  by (auto simp: run_attack_def Let_def split: prod.splits sum.splits)

lemma run_attack_Inr_parts:
  assumes "run_attack m labeller call elapsed logging t = (Inr u, t')"
  shows "\<exists>xs t1 q t2. m logging t = (Inr xs, t1) \<and> get_query labeller call xs t1 = (Inr q, t2) \<and>
           num_evaluations t' = num_evaluations t2 \<and> actual_evaluations t' = actual_evaluations t2 \<and>
           final (results (active_attack t')) = Some q"
  using assms
  by (auto simp: run_attack_def Let_def split: prod.splits sum.splits)

lemma ex_probed_eval:
  "fst (init_run_attack ex_labeller ex_model ex_target) = Inr ()"
  "num_evaluations ex_probed = 1"
  "actual_evaluations ex_probed = 1"
  "samples (active_attack ex_probed) = [ex_A]"
  "status (active_attack ex_probed) = pending"
  "final (results (active_attack ex_probed)) = None"
  by (simp_all add: ex_probed_def init_run_attack_def get_query_def submit_def invoke_def
      ex_target_def ex_attack_def ex_model_def ex_labeller_def ex_A_def)

lemma ex_done_eval:
  "fst (run_attack (run_art_attack ex_labeller ex_model ex_attack_cls) ex_labeller ex_model 5
          False ex_probed) = Inr ()"
  "num_evaluations ex_done = 3"
  "actual_evaluations ex_done = 3"
  by (simp_all add: ex_done_def run_attack_def run_art_attack_def as_blackbox_art_target_def
      targeted_def ex_attack_cls_def
      ex_probed_def init_run_attack_def get_query_def submit_def invoke_def
      ex_target_def ex_attack_def ex_model_def ex_labeller_def ex_A_def ex_B_def Let_def)

lemma submitted_counters:
  "submitted call labeller t s \<Longrightarrow>
   num_evaluations t \<le> num_evaluations s \<and>
   actual_evaluations s - actual_evaluations t \<le> num_evaluations s - num_evaluations t"
proof (induction rule: submitted.induct)
  case nothing
  show ?case by simp
next
  case (cached s b r s')
  have "s' = snd (submit_with_cache call b s)" using cached.hyps(2) by simp
  then show ?case
    using cached.IH length_spec_miss_batch_le [of "cache s" b]
    by (simp add: submit_with_cache_counters)
next
  case (uncached s b r' s')
  from submit_frame [OF uncached.hyps(2)] uncached.IH show ?case by simp
next
  case (logged s name ident b r' s')
  from submit_with_logging_frame [OF logged.hyps(2)] logged.IH show ?case by simp
next
  case (attribute s a)
  then show ?case by simp
qed

lemma drive_submitted:
  "submitted call labeller t s \<Longrightarrow>
   drive (as_blackbox_art_target labeller call logging name ident) gen s = (r, s') \<Longrightarrow>
   submitted call labeller t s'"
proof (induction gen arbitrary: s)
  case (Return xs)
  then show ?case by simp
next
  case (Raise e)
  then show ?case by simp
next
  case (Ask b k)
  obtain r1 s1 where q: "as_blackbox_art_target labeller call logging name ident b s = (r1, s1)"
    by (cases "as_blackbox_art_target labeller call logging name ident b s")
  with Ask.prems(2)
  have d: "drive (as_blackbox_art_target labeller call logging name ident) (k r1) s1 = (r, s')"
    by simp
  have s1: "submitted call labeller t s1"
  proof (cases logging)
    case True
    with q have "submit_with_logging labeller call name ident b s = (r1, s1)"
      by (simp add: as_blackbox_art_target_def)
    with Ask.prems(1) show ?thesis by (rule submitted.logged)
  next
    case False
    with q have "submit call b s = (r1, s1)" by (simp add: as_blackbox_art_target_def)
    with Ask.prems(1) show ?thesis by (rule submitted.uncached)
  qed
  have "k r1 \<in> range k" by simp
  from Ask.IH [OF this s1 d] show ?case .
qed

lemma run_art_attack_submitted:
  "submitted call labeller t (snd (run_art_attack labeller call attack_cls logging t))"
proof -
  let ?a = "active_attack t"
  let ?q = "as_blackbox_art_target labeller call logging (attack_name ?a) (attack_id ?a)"
  let ?gen = "if targeted ?a
              then attack_cls (parameters ?a) (samples ?a)
                     (Some (replicate (length (samples ?a)) (target_class ?a)))
              else attack_cls (parameters ?a) (samples ?a) None"
  obtain r s where d: "drive ?q ?gen t = (r, s)" by (cases "drive ?q ?gen t")
  from drive_submitted [OF submitted.nothing d] have s: "submitted call labeller t s" .
  show ?thesis
  proof (cases r)
    case (Inl e)
    with d s show ?thesis by (simp add: run_art_attack_def Let_def)
  next
    case (Inr xs)
    with d submitted.attribute [OF s] show ?thesis by (simp add: run_art_attack_def Let_def)
  qed
qed

text \<open>
  Claim C5. Let \<open>run_attack\<close> have completed, with a method \<open>_run_attack\<close> that reaches
  the target through the target's submission methods (cached, uncached or logged). Then
  the recorded \<open>queries\<close> is the growth of \<open>num_evaluations\<close> over the run, the recorded
  \<open>cache_hits\<close> is \<open>queries\<close> minus the growth of \<open>actual_evaluations\<close> over the run,
  and it is not negative. The attacks of \<open>ArtTarget\<close> are such methods
  (\<open>run_art_attack_submitted\<close>).
\<close>

theorem run_attack_cache_hits:
  assumes run: "run_attack run_attack_method labeller call elapsed logging t = (Inr (), t')"
    and runner: "submitted call labeller t (snd (run_attack_method logging t))"
  shows "queries (results (active_attack t')) = Some (num_evaluations t' - num_evaluations t) \<and>
         cache_hits (results (active_attack t')) =
           Some ((num_evaluations t' - num_evaluations t) -
                 (actual_evaluations t' - actual_evaluations t)) \<and>
         0 \<le> (num_evaluations t' - num_evaluations t) -
               (actual_evaluations t' - actual_evaluations t)"
proof -
  from run_attack_Inr_parts [OF run] obtain xs t1 q t2 where
    r: "run_attack_method logging t = (Inr xs, t1)"
    and g: "get_query labeller call xs t1 = (Inr q, t2)"
    and n: "num_evaluations t' = num_evaluations t2" "actual_evaluations t' = actual_evaluations t2"
    by blast
  from runner r have "submitted call labeller t t1" by simp
  from submitted_counters [OF this] get_query_frame [OF g] n
  have "0 \<le> (num_evaluations t' - num_evaluations t) -
               (actual_evaluations t' - actual_evaluations t)"
    by simp
  with run_attack_Inr [OF run] show ?thesis by simp
qed

lemma ex_cache_probed_eval:
  "num_evaluations ex_cache_probed = 1"
  "actual_evaluations ex_cache_probed = 1"
  by (simp_all add: ex_cache_probed_def init_run_attack_def get_query_def submit_def invoke_def
      ex_cached_def ex_target_def ex_attack_def ex_model_def ex_labeller_def ex_A_def)

lemma ex_cache_done_eval:
  "fst (run_attack ex_cache_runner ex_labeller ex_model 5 False ex_cache_probed) = Inr ()"
  "num_evaluations ex_cache_done = 4"
  "actual_evaluations ex_cache_done = 3"
  by (simp_all add: ex_cache_done_def run_attack_def ex_cache_runner_def submit_with_cache_def key_def
      ex_cache_probed_def init_run_attack_def get_query_def submit_def invoke_def
      ex_cached_def ex_target_def ex_attack_def ex_model_def ex_labeller_def ex_A_def ex_B_def
      Let_def)

theorem run_attack_cache_hits_witness:
  "fst (run_attack ex_cache_runner ex_labeller ex_model 5 False ex_cache_probed) = Inr () \<and>
   queries (results (active_attack ex_cache_done)) = Some 3 \<and>
   cache_hits (results (active_attack ex_cache_done)) = Some 1 \<and>
   fst (run_attack (run_art_attack ex_labeller ex_model ex_attack_cls) ex_labeller ex_model 5
          False ex_probed) = Inr () \<and>
   queries (results (active_attack ex_done)) = Some 2 \<and>
   cache_hits (results (active_attack ex_done)) = Some 0"
proof -
  have ev: "run_attack ex_cache_runner ex_labeller ex_model 5 False ex_cache_probed
              = (Inr (), ex_cache_done)"
    by (simp add: prod_eq_iff ex_cache_done_eval(1)) (simp add: ex_cache_done_def)
  have "submitted ex_model ex_labeller ex_cache_probed
          (snd (submit_with_cache ex_model [ex_A, ex_B] ex_cache_probed))"
    by (rule submitted.cached [OF submitted.nothing]) (rule prod.collapse [symmetric])
  from submitted.attribute [OF this]
  have sub: "submitted ex_model ex_labeller ex_cache_probed
          (snd (ex_cache_runner False ex_cache_probed))"
    by (auto simp: ex_cache_runner_def split: prod.splits)
  have ev': "run_attack (run_art_attack ex_labeller ex_model ex_attack_cls) ex_labeller ex_model 5
              False ex_probed = (Inr (), ex_done)"
    by (simp add: prod_eq_iff ex_done_eval(1)) (simp add: ex_done_def)
  from run_attack_cache_hits [OF ev sub]
  have a: "queries (results (active_attack ex_cache_done)) = Some 3 \<and>
           cache_hits (results (active_attack ex_cache_done)) = Some 1"
    by (simp add: ex_cache_done_eval ex_cache_probed_eval)
  from run_attack_cache_hits [OF ev' run_art_attack_submitted]
  have b: "queries (results (active_attack ex_done)) = Some 2 \<and>
           cache_hits (results (active_attack ex_done)) = Some 0"
    by (simp add: ex_done_eval ex_probed_eval)
  from a b ex_cache_done_eval(1) ex_done_eval(1) show ?thesis by simp
qed

text \<open>
  Claim C6 as stated fails: the initial probe is made by \<open>init_run_attack\<close>, before
  \<open>run_attack\<close> reads the counters. In the example the initial probe, the attack and
  the final probe evaluate one sample each, three in all, and the recorded \<open>queries\<close>
  is two.
\<close>

theorem run_attack_deltas_counterexample:
  "fst (init_run_attack ex_labeller ex_model ex_target) = Inr () \<and>
   fst (run_attack (run_art_attack ex_labeller ex_model ex_attack_cls) ex_labeller ex_model 5
          False ex_probed) = Inr () \<and>
   num_evaluations ex_done - num_evaluations ex_target = 3 \<and>
   queries (results (active_attack ex_done)) = Some 2 \<and>
   queries (results (active_attack ex_done)) \<noteq>
     Some (num_evaluations ex_done - num_evaluations ex_target)"
  by (simp add: ex_done_def run_attack_def run_art_attack_def as_blackbox_art_target_def
      targeted_def ex_attack_cls_def
      ex_probed_def init_run_attack_def get_query_def submit_def invoke_def
      ex_target_def ex_attack_def ex_model_def ex_labeller_def ex_A_def ex_B_def Let_def)

text \<open>
  Claim C6, as amended. The counter deltas behind the recorded \<open>queries\<close> and
  \<open>cache_hits\<close> span the attack and the final probe, from the start of \<open>run_attack\<close>
  to its bookkeeping. The evaluations of the initial probe, one for each sample, are
  counted before that and are not part of them.
\<close>

theorem run_attack_deltas:
  assumes init: "init_run_attack labeller call t = (Inr (), t1)"
    and run: "run_attack (run_art_attack labeller call attack_cls) labeller call elapsed logging t1
                = (Inr (), t2)"
  shows "num_evaluations t1 = num_evaluations t + int (length (samples (active_attack t))) \<and>
         actual_evaluations t1 = actual_evaluations t + int (length (samples (active_attack t))) \<and>
         queries (results (active_attack t2)) = Some (num_evaluations t2 - num_evaluations t1) \<and>
         cache_hits (results (active_attack t2)) =
           Some ((num_evaluations t2 - num_evaluations t1) -
                 (actual_evaluations t2 - actual_evaluations t1)) \<and>
         queries (results (active_attack t2)) =
           Some (num_evaluations t2 - num_evaluations t - int (length (samples (active_attack t))))"
proof -
  from init obtain q t0 where g: "get_query labeller call (samples (active_attack t)) t = (Inr q, t0)"
    and t1: "num_evaluations t1 = num_evaluations t0" "actual_evaluations t1 = actual_evaluations t0"
    by (auto simp: init_run_attack_def split: prod.splits sum.splits)
  from get_query_frame [OF g] t1
  have a: "num_evaluations t1 = num_evaluations t + int (length (samples (active_attack t)))"
    and b: "actual_evaluations t1 = actual_evaluations t + int (length (samples (active_attack t)))"
    by simp_all
  from run_attack_Inr [OF run] a b show ?thesis by simp
qed

theorem run_attack_deltas_witness:
  "fst (init_run_attack ex_labeller ex_model ex_target) = Inr () \<and>
   fst (run_attack (run_art_attack ex_labeller ex_model ex_attack_cls) ex_labeller ex_model 5
          False ex_probed) = Inr () \<and>
   num_evaluations ex_probed = 1 \<and>
   queries (results (active_attack ex_done)) = Some (3 - 1)"
proof -
  have i: "init_run_attack ex_labeller ex_model ex_target = (Inr (), ex_probed)"
    by (simp add: prod_eq_iff ex_probed_eval(1)) (simp add: ex_probed_def)
  have ev: "run_attack (run_art_attack ex_labeller ex_model ex_attack_cls) ex_labeller ex_model 5
              False ex_probed = (Inr (), ex_done)"
    by (simp add: prod_eq_iff ex_done_eval(1)) (simp add: ex_done_def)
  from run_attack_deltas [OF i ev] show ?thesis
    by (simp add: ex_done_eval ex_probed_eval)
qed

text \<open>
  Claim C8. When the attack raises, \<open>run_attack\<close> ends with the same exception and in
  the state the attack left; the status of the attack and its \<open>results\<close> are what they
  were before the run, so the status is not set to completed and no final query and no
  statistics are recorded.
\<close>

theorem runner_exception_propagates:
  assumes "run_art_attack labeller call attack_cls logging t = (Inl e, t1)"
  shows "run_attack (run_art_attack labeller call attack_cls) labeller call elapsed logging t
           = (Inl e, t1) \<and>
         status (active_attack t1) = status (active_attack t) \<and>
         results (active_attack t1) = results (active_attack t)"
  using assms run_art_attack_frame [OF assms]
  by (simp add: run_attack_def)

theorem runner_exception_propagates_witness:
  "fst (run_art_attack ex_labeller ex_model ex_failing_cls True ex_probed)
     = Inl (AttackError ''no adversarial example'') \<and>
   fst (run_attack (run_art_attack ex_labeller ex_model ex_failing_cls) ex_labeller ex_model 5
          True ex_probed) = Inl (AttackError ''no adversarial example'') \<and>
   status (active_attack ex_failed) = pending \<and>
   final (results (active_attack ex_failed)) = None \<and>
   elapsed_time (results (active_attack ex_failed)) = None \<and>
   queries (results (active_attack ex_failed)) = None \<and>
   cache_hits (results (active_attack ex_failed)) = None"
proof -
  have f: "fst (run_art_attack ex_labeller ex_model ex_failing_cls True ex_probed)
             = Inl (AttackError ''no adversarial example'')"
    by (simp add: run_art_attack_def as_blackbox_art_target_def submit_with_logging_def
      targeted_def ex_failing_cls_def
      ex_probed_def init_run_attack_def get_query_def submit_def invoke_def
      ex_target_def ex_attack_def ex_model_def ex_labeller_def ex_A_def Let_def)
  have ev: "run_art_attack ex_labeller ex_model ex_failing_cls True ex_probed
              = (Inl (AttackError ''no adversarial example''), ex_failed)"
    by (simp add: prod_eq_iff f) (simp add: ex_failed_def)
  have r0: "results (active_attack ex_probed) =
              \<lparr>initial = Some \<lparr>q_input = [ex_A], q_output = [8], q_label = [''catB'']\<rparr>,
               final = None, elapsed_time = None, queries = None, cache_hits = None\<rparr>"
    by (simp add: ex_probed_def init_run_attack_def get_query_def submit_def invoke_def
      ex_target_def ex_attack_def ex_model_def ex_labeller_def ex_A_def)
  from runner_exception_propagates [OF ev, of 5] f show ?thesis
    by (simp add: ex_probed_eval r0)
qed

section \<open>Properties of the success check and of the attack management\<close>






end
